theory Spec2Isabelle
  imports Complex_Main
begin

section \<open>Data model\<close>

text \<open>
  The schema is whatever \<^verbatim>\<open>yaml.safe_load\<close> or \<^verbatim>\<open>json.load\<close> returns: an untyped tree
  of Python values. \<open>DNull\<close> is Python's \<^verbatim>\<open>None\<close>, which is also the value of
  \<^verbatim>\<open>self.schema\<close> before any load. A \<^verbatim>\<open>dict\<close> is an association list (lookup takes the
  first binding of a key); its keys are document values themselves, since YAML allows
  non-string keys. YAML timestamps, binary scalars and sets, and the float values nan
  and inf, are outside this type. A Python string is the list of the bytes of its UTF-8
  encoding: equality, prefixes, suffixes and substrings are the same on both, and no byte
  of a character beyond ASCII is a quote or a newline. The calls of \<^verbatim>\<open>logging\<close> change
  nothing that is returned or raised, and are left out.
\<close>

datatype doc =
    DNull
  | DBool bool
  | DInt int
  | DFloat real
  | DStr string
  | DSeq "doc list"
  | DMap "(doc \<times> doc) list"

text \<open>The exceptions the program can meet; the payload is the exception's message.\<close>

datatype py_error =
    FileNotFoundError
  | PermissionError
  | IsADirectoryError
  | OSError
  | UnicodeDecodeError
  | YAMLError string
  | JSONDecodeError string
  | ValueError string
  | TypeError
  | AttributeError
  | KeyError

text \<open>
  The object of class \<^verbatim>\<open>APIEndpointValidator\<close>. An endpoint record is the pair
  \<^verbatim>\<open>(file_path, endpoint)\<close> that \<^verbatim>\<open>find_endpoints\<close> appends.
\<close>

type_synonym endpoint_record = "string \<times> string"

record validator =
  code_path :: string
  schema_path :: string
  endpoints :: "endpoint_record list"
  schema :: doc

definition init :: "string \<Rightarrow> string \<Rightarrow> validator" where
  "init cp sp = \<lparr>code_path = cp, schema_path = sp, endpoints = [], schema = DNull\<rparr>"

section \<open>Python primitives used by the program\<close>

definition startswith :: "string \<Rightarrow> string \<Rightarrow> bool" where
  "startswith s p = (take (length p) s = p)"

definition endswith :: "string \<Rightarrow> string \<Rightarrow> bool" where
  "endswith s p = (length p \<le> length s \<and> drop (length s - length p) s = p)"

text \<open>\<^verbatim>\<open>sub in s\<close> on two strings: \<open>sub\<close> occurs in \<open>s\<close>.\<close>

fun is_substring :: "string \<Rightarrow> string \<Rightarrow> bool" where
  "is_substring sub [] = (sub = [])"
| "is_substring sub (c # cs) = (startswith (c # cs) sub \<or> is_substring sub cs)"

text \<open>Truth value of a Python object, as \<^verbatim>\<open>not self.schema\<close> tests it.\<close>

fun truthy :: "doc \<Rightarrow> bool" where
  "truthy DNull = False"
| "truthy (DBool b) = b"
| "truthy (DInt n) = (n \<noteq> 0)"
| "truthy (DFloat x) = (x \<noteq> 0)"
| "truthy (DStr s) = (s \<noteq> [])"
| "truthy (DSeq xs) = (xs \<noteq> [])"
| "truthy (DMap kvs) = (kvs \<noteq> [])"

text \<open>
  \<^verbatim>\<open>k in d\<close> for a string \<open>k\<close>: key membership on a dict, element membership on a
  list, substring on a string, \<^verbatim>\<open>TypeError\<close> on everything else.
\<close>

fun contains :: "doc \<Rightarrow> string \<Rightarrow> py_error + bool" where
  "contains (DMap kvs) k = Inr (DStr k \<in> set (map fst kvs))"
| "contains (DSeq xs) k = Inr (DStr k \<in> set xs)"
| "contains (DStr s) k = Inr (is_substring k s)"
| "contains DNull k = Inl TypeError"
| "contains (DBool b) k = Inl TypeError"
| "contains (DInt n) k = Inl TypeError"
| "contains (DFloat x) k = Inl TypeError"

text \<open>\<^verbatim>\<open>d[k]\<close> for a string \<open>k\<close>: only a dict can be subscripted by a string.\<close>

fun getitem :: "doc \<Rightarrow> string \<Rightarrow> py_error + doc" where
  "getitem (DMap kvs) k =
     (case map_of kvs (DStr k) of None \<Rightarrow> Inl KeyError | Some v \<Rightarrow> Inr v)"
| "getitem d k = Inl TypeError"

text \<open>\<^verbatim>\<open>d.keys()\<close>: only a dict has the method.\<close>

fun keys :: "doc \<Rightarrow> py_error + doc list" where
  "keys (DMap kvs) = Inr (map fst kvs)"
| "keys d = Inl AttributeError"

section \<open>validate_endpoints\<close>

definition http_methods :: "string list" where
  "http_methods = [''get'', ''post'', ''put'', ''delete'', ''patch'', ''options'', ''head'']"

definition not_found_msg :: "string \<Rightarrow> string \<Rightarrow> string" where
  "not_found_msg endpoint file_path =
     ''Endpoint '' @ [CHR 0x27] @ endpoint @ [CHR 0x27] @ '' (defined in '' @ file_path
       @ '') not found in schema.''"

definition bad_methods_msg :: "string \<Rightarrow> string" where
  "bad_methods_msg endpoint =
     ''Endpoint '' @ [CHR 0x27] @ endpoint @ [CHR 0x27]
       @ '' in schema does not define valid HTTP methods.''"

text \<open>
  \<^verbatim>\<open>any(method in [...] for method in methods)\<close>: a key that is not a string equals
  none of the seven names.
\<close>

definition any_valid_method :: "doc list \<Rightarrow> bool" where
  "any_valid_method methods = list_ex (\<lambda>method. method \<in> set (map DStr http_methods)) methods"

text \<open>
  The body of the loop of \<^verbatim>\<open>validate_endpoints\<close> for one record: the errors this
  iteration appends, or the exception it raises.
\<close>

definition check_endpoint :: "doc \<Rightarrow> endpoint_record \<Rightarrow> py_error + string list" where
  "check_endpoint sch r =
     (case r of (file_path, endpoint) \<Rightarrow>
        (case getitem sch ''paths'' of
           Inl e \<Rightarrow> Inl e
         | Inr paths \<Rightarrow>
             (case contains paths endpoint of
                Inl e \<Rightarrow> Inl e
              | Inr False \<Rightarrow> Inr [not_found_msg endpoint file_path]
              | Inr True \<Rightarrow>
                  (case getitem paths endpoint of
                     Inl e \<Rightarrow> Inl e
                   | Inr item \<Rightarrow>
                       (case keys item of
                          Inl e \<Rightarrow> Inl e
                        | Inr methods \<Rightarrow>
                            if \<not> any_valid_method methods
                            then Inr [bad_methods_msg endpoint]
                            else Inr [])))))"

text \<open>The loop: \<open>errors\<close> is the list built so far; an exception ends the call.\<close>

fun validate_loop :: "doc \<Rightarrow> endpoint_record list \<Rightarrow> string list \<Rightarrow> py_error + string list" where
  "validate_loop sch [] errors = Inr errors"
| "validate_loop sch (r # rs) errors =
     (case check_endpoint sch r of
        Inl e \<Rightarrow> Inl e
      | Inr new \<Rightarrow> validate_loop sch rs (errors @ new))"

definition validate_endpoints :: "validator \<Rightarrow> py_error + string list" where
  "validate_endpoints self =
     (if \<not> truthy (schema self) then Inr [''Schema not loaded.'']
      else
        (case contains (schema self) ''paths'' of
           Inl e \<Rightarrow> Inl e
         | Inr False \<Rightarrow> Inr [''No paths defined in schema'']
         | Inr True \<Rightarrow> validate_loop (schema self) (endpoints self) []))"

section \<open>The environment\<close>

text \<open>
  What the program reads from outside. \<open>open_file\<close> is \<^verbatim>\<open>open(path, 'r')\<close>: it raises, or
  gives a handle; the handle is what reading it to the end does: raise, or give the text.
  \<open>os_walk\<close> is the sequence of triples \<^verbatim>\<open>(root, dirs, files)\<close> that \<^verbatim>\<open>os.walk\<close> yields
  (it reports no error of its own: a directory it cannot list is left out).
  \<open>yaml_safe_load\<close> and \<open>json_load\<close> are the two library parsers, applied to the text
  of the file.
\<close>

type_synonym handle = "py_error + string"

record env =
  open_file :: "string \<Rightarrow> py_error + handle"
  os_walk :: "string \<Rightarrow> (string \<times> string list \<times> string list) list"
  yaml_safe_load :: "string \<Rightarrow> py_error + doc"
  json_load :: "string \<Rightarrow> py_error + doc"

text \<open>A parser called on an open file reads it first.\<close>

definition parse_handle :: "(string \<Rightarrow> py_error + doc) \<Rightarrow> handle \<Rightarrow> py_error + doc" where
  "parse_handle parser f = (case f of Inl e \<Rightarrow> Inl e | Inr content \<Rightarrow> parser content)"

section \<open>load_schema\<close>

text \<open>
  The method returns the object as it leaves it, and the exception it raises, if any.
  Every \<^verbatim>\<open>except\<close> clause logs and re-raises, so the exception leaves unchanged.
\<close>

definition load_schema :: "env \<Rightarrow> validator \<Rightarrow> validator \<times> py_error option" where
  "load_schema E self =
     (case open_file E (schema_path self) of
        Inl e \<Rightarrow> (self, Some e)
      | Inr f \<Rightarrow>
          if endswith (schema_path self) ''.yaml'' \<or> endswith (schema_path self) ''.yml'' then
            (case parse_handle (yaml_safe_load E) f of
               Inl e \<Rightarrow> (self, Some e)
             | Inr d \<Rightarrow> (self\<lparr>schema := d\<rparr>, None))
          else if endswith (schema_path self) ''.json'' then
            (case parse_handle (json_load E) f of
               Inl e \<Rightarrow> (self, Some e)
             | Inr d \<Rightarrow> (self\<lparr>schema := d\<rparr>, None))
          else
            (self, Some (ValueError
               ''Unsupported schema file format. Only YAML and JSON are supported.'')))"

section \<open>find_endpoints\<close>

text \<open>\<^verbatim>\<open>os.path.join(a, b)\<close> (posixpath).\<close>

definition path_join :: "string \<Rightarrow> string \<Rightarrow> string" where
  "path_join a b =
     (if startswith b ''/'' then b
      else if a = [] \<or> endswith a ''/'' then a @ b
      else a @ ''/'' @ b)"

text \<open>
  \<^verbatim>\<open>re.findall(r"@app\.route\(['\"](.*?)['\"]", content)\<close>. After the literal text and an
  opening quote of either kind, the lazy group takes characters up to the first quote of
  either kind; \<^verbatim>\<open>.\<close> does not match a newline, so a newline before that quote means no
  match at this position. The search resumes after the end of a match, and one
  position further when there is none.
\<close>

definition is_quote :: "char \<Rightarrow> bool" where
  "is_quote c = (c = CHR 0x27 \<or> c = CHR 0x22)"

fun lazy_group :: "string \<Rightarrow> (string \<times> string) option" where
  "lazy_group [] = None"
| "lazy_group (c # cs) =
     (if is_quote c then Some ([], cs)
      else if c = CHR 0x0A then None
      else (case lazy_group cs of
              None \<Rightarrow> None
            | Some (g, rest) \<Rightarrow> Some (c # g, rest)))"

definition match_route :: "string \<Rightarrow> (string \<times> string) option" where
  "match_route s =
     (if startswith s ''@app.route('' then
        (case drop (length ''@app.route('') s of
           [] \<Rightarrow> None
         | q # t \<Rightarrow> if is_quote q then lazy_group t else None)
      else None)"

function findall_routes :: "string \<Rightarrow> string list" where
  "findall_routes [] = []"
| "findall_routes (c # cs) =
     (case match_route (c # cs) of
        None \<Rightarrow> findall_routes cs
      | Some (g, rest) \<Rightarrow> g # findall_routes rest)"
  by pat_completeness auto

lemma lazy_group_shorter: "lazy_group s = Some (g, rest) \<Longrightarrow> length rest < length s"
proof (induction s arbitrary: g)
  case Nil
  then show ?case by simp
next
  case (Cons c cs)
  then show ?case
    by (auto split: if_splits option.splits)
qed

lemma match_route_shorter: "match_route s = Some (g, rest) \<Longrightarrow> length rest < length s"
proof -
  assume m: "match_route s = Some (g, rest)"
  then obtain q t where d: "drop (length ''@app.route('') s = q # t" and l: "lazy_group t = Some (g, rest)"
    unfolding match_route_def by (auto split: if_splits list.splits)
  from l have "length rest < length t" by (rule lazy_group_shorter)
  moreover have "length t < length s"
  proof -
    from d have "length (drop (length ''@app.route('') s) = Suc (length t)" by simp
    then show ?thesis by simp
  qed
  ultimately show ?thesis by simp
qed

termination findall_routes
proof (relation "measure length")
  show "wf (measure length)" by simp
next
  fix c :: char and cs :: string
  show "(cs, c # cs) \<in> measure length" by simp
next
  fix c cs x2 x y
  assume "match_route (c # cs) = Some x2" and "(x, y) = x2"
  then have "match_route (c # cs) = Some (x, y)" by simp
  then have "length y < length (c # cs)" by (rule match_route_shorter)
  then show "(y, c # cs) \<in> measure length" by simp
qed

text \<open>
  The inner loop over the files of one directory, and the outer loop over the triples
  of the walk. \<open>eps\<close> is \<^verbatim>\<open>self.endpoints\<close>, extended in place: what was appended before
  an exception stays.
\<close>

fun scan_files ::
  "env \<Rightarrow> string \<Rightarrow> string list \<Rightarrow> endpoint_record list \<Rightarrow> endpoint_record list \<times> py_error option"
where
  "scan_files E dirpath [] eps = (eps, None)"
| "scan_files E dirpath (file # files) eps =
     (if endswith file ''.py'' then
        (let file_path = path_join dirpath file in
           (case open_file E file_path of
              Inl e \<Rightarrow> (eps, Some e)
            | Inr f \<Rightarrow>
                (case f of
                   Inl e \<Rightarrow> (eps, Some e)
                 | Inr content \<Rightarrow>
                     scan_files E dirpath files
                       (eps @ map (\<lambda>endpoint. (file_path, endpoint)) (findall_routes content)))))
      else scan_files E dirpath files eps)"

fun scan_walk ::
  "env \<Rightarrow> (string \<times> string list \<times> string list) list \<Rightarrow> endpoint_record list
     \<Rightarrow> endpoint_record list \<times> py_error option"
where
  "scan_walk E [] eps = (eps, None)"
| "scan_walk E ((dirpath, dirnames, files) # rest) eps =
     (case scan_files E dirpath files eps of
        (eps', Some e) \<Rightarrow> (eps', Some e)
      | (eps', None) \<Rightarrow> scan_walk E rest eps')"

definition find_endpoints :: "env \<Rightarrow> validator \<Rightarrow> validator \<times> py_error option" where
  "find_endpoints E self =
     (case scan_walk E (os_walk E (code_path self)) (endpoints self) of
        (eps, r) \<Rightarrow> (self\<lparr>endpoints := eps\<rparr>, r))"

section \<open>main\<close>

text \<open>
  How a run ends. The first three are the \<^verbatim>\<open>except Exception\<close> branch, told apart by
  the call that raised; \<open>Failed\<close> is the branch that logs the errors and exits with 1;
  \<open>Passed\<close> is the branch that logs success.
\<close>

datatype outcome =
    LoadFailed py_error
  | ScanFailed py_error
  | ValidateRaised py_error
  | Failed "string list"
  | Passed

fun exit_status :: "outcome \<Rightarrow> nat" where
  "exit_status (LoadFailed e) = 1"
| "exit_status (ScanFailed e) = 1"
| "exit_status (ValidateRaised e) = 1"
| "exit_status (Failed errors) = 1"
| "exit_status Passed = 0"

text \<open>Lines 137 to 145: validate, then report.\<close>

definition report :: "validator \<Rightarrow> outcome" where
  "report v =
     (case validate_endpoints v of
        Inl e \<Rightarrow> ValidateRaised e
      | Inr errors \<Rightarrow> if errors \<noteq> [] then Failed errors else Passed)"

definition main :: "env \<Rightarrow> string \<Rightarrow> string \<Rightarrow> outcome" where
  "main E cp sp =
     (case load_schema E (init cp sp) of
        (v, Some e) \<Rightarrow> LoadFailed e
      | (v, None) \<Rightarrow>
          (case find_endpoints E v of
             (v', Some e) \<Rightarrow> ScanFailed e
           | (v', None) \<Rightarrow> report v'))"

section \<open>Example inputs\<close>

text \<open>
  The example of the comment at the end of the source: a code base with one file
  \<^verbatim>\<open>app.py\<close> holding two routes, and a schema declaring both paths with a \<^verbatim>\<open>get\<close>
  method. Around it, the files the error cases need.
\<close>

definition example_app :: string where
  "example_app =
     ''@app.route('/users')'' @ [CHR 0x0A] @ ''def users(): pass'' @ [CHR 0x0A]
       @ ''@app.route('' @ [CHR 0x22] @ ''/items/{item_id}'' @ [CHR 0x22] @ '')''
       @ [CHR 0x0A] @ ''def item(item_id): pass''"

definition example_paths :: doc where
  "example_paths =
     DMap [(DStr ''/users'', DMap [(DStr ''get'', DMap [(DStr ''summary'', DStr ''Get all users'')])]),
           (DStr ''/items/{item_id}'',
              DMap [(DStr ''get'', DMap [(DStr ''summary'', DStr ''Get a specific item'')])])]"

definition example_schema :: doc where
  "example_schema = DMap [(DStr ''paths'', example_paths)]"

definition example_schema_json :: doc where
  "example_schema_json = DMap [(DStr ''openapi'', DStr ''3.0.0''), (DStr ''paths'', example_paths)]"

definition example_open :: "string \<Rightarrow> py_error + handle" where
  "example_open p =
     (if p = ''./example_schema.yaml'' then Inr (Inr ''yaml text of the example'')
      else if p = ''./example_schema.json'' then Inr (Inr ''json text of the example'')
      else if p = ''./empty.json'' then Inr (Inr ''{}'')
      else if p = ''./broken.json'' then Inr (Inr ''{'')
      else if p = ''./broken.yml'' then Inr (Inr ''a: ['')
      else if p = ''./schema.txt'' then Inr (Inr ''paths: {}'')
      else if p = ''./locked.txt'' then Inl PermissionError
      else if p = ''./example_code/app.py'' then Inr (Inr example_app)
      else if p = ''./example_code/README.md'' then Inr (Inr ''see @app.route('/ignored')'')
      else if p = ''./locked_code/first.py'' then Inr (Inr ''@app.route('/first')'')
      else if p = ''./locked_code/locked.py'' then Inl PermissionError
      else if p = ''./locked_code/later.py'' then Inr (Inr ''@app.route('/later')'')
      else Inl FileNotFoundError)"

definition example_walk :: "string \<Rightarrow> (string \<times> string list \<times> string list) list" where
  "example_walk p =
     (if p = ''./example_code'' then [(''./example_code'', [], [''README.md'', ''app.py''])]
      else if p = ''./locked_code'' then
        [(''./locked_code'', [], [''first.py'', ''locked.py'', ''later.py''])]
      else [])"

definition example_yaml :: "string \<Rightarrow> py_error + doc" where
  "example_yaml t =
     (if t = ''yaml text of the example'' then Inr example_schema
      else if t = ''paths: {}'' then Inr (DMap [(DStr ''paths'', DMap [])])
      else if t = [] then Inr DNull
      else Inl (YAMLError ''while parsing a flow sequence: expected ',' or ']' but got end of stream''))"

definition example_json :: "string \<Rightarrow> py_error + doc" where
  "example_json t =
     (if t = ''json text of the example'' then Inr example_schema_json
      else if t = ''{}'' then Inr (DMap [])
      else Inl (JSONDecodeError
        ''Expecting property name enclosed in double quotes: line 1 column 2 (char 1)''))"

definition example_env :: env where
  "example_env =
     \<lparr>open_file = example_open, os_walk = example_walk,
      yaml_safe_load = example_yaml, json_load = example_json\<rparr>"

section \<open>Facts about the validation loop\<close>

lemma validate_loop_acc:
  "validate_loop sch rs errors =
     (case validate_loop sch rs [] of Inl e \<Rightarrow> Inl e | Inr new \<Rightarrow> Inr (errors @ new))"
proof (induction rs arbitrary: errors)
  case Nil
  show ?case by simp
next
  case (Cons r rs)
  show ?case
  proof (cases "check_endpoint sch r")
    case (Inl e)
    then show ?thesis by simp
  next
    case (Inr new)
    have a: "validate_loop sch rs (errors @ new) =
        (case validate_loop sch rs [] of Inl e \<Rightarrow> Inl e | Inr k \<Rightarrow> Inr ((errors @ new) @ k))"
      by (rule Cons.IH)
    have b: "validate_loop sch rs ([] @ new) =
        (case validate_loop sch rs [] of Inl e \<Rightarrow> Inl e | Inr k \<Rightarrow> Inr (([] @ new) @ k))"
      by (rule Cons.IH)
    show ?thesis using Inr a b by (simp split: sum.splits)
  qed
qed

lemma validate_loop_all_ok:
  assumes "\<forall>r\<in>set rs. \<exists>new. check_endpoint sch r = Inr new"
  shows "validate_loop sch rs [] =
           Inr (concat (map (\<lambda>r. case check_endpoint sch r of Inr new \<Rightarrow> new | Inl e \<Rightarrow> []) rs))"
  using assms
proof (induction rs)
  case Nil
  show ?case by simp
next
  case (Cons r rs)
  from Cons.prems obtain new where n: "check_endpoint sch r = Inr new" by auto
  from Cons.prems have "\<forall>r\<in>set rs. \<exists>new. check_endpoint sch r = Inr new" by simp
  then have ih: "validate_loop sch rs [] =
           Inr (concat (map (\<lambda>r. case check_endpoint sch r of Inr new \<Rightarrow> new | Inl e \<Rightarrow> []) rs))"
    by (rule Cons.IH)
  have "validate_loop sch (r # rs) [] = validate_loop sch rs new" using n by simp
  also have "\<dots> = Inr (new @ concat (map (\<lambda>r. case check_endpoint sch r of Inr new \<Rightarrow> new | Inl e \<Rightarrow> []) rs))"
    using ih by (subst validate_loop_acc) simp
  finally show ?case using n by simp
qed

lemma validate_loop_raises:
  assumes "r \<in> set rs" and "check_endpoint sch r = Inl e"
    and "\<forall>r\<in>set rs. \<forall>e'. check_endpoint sch r = Inl e' \<longrightarrow> e' = e"
  shows "validate_loop sch rs errors = Inl e"
  using assms
proof (induction rs arbitrary: errors)
  case Nil
  then show ?case by simp
next
  case (Cons a rs)
  show ?case
  proof (cases "check_endpoint sch a")
    case (Inl e')
    with Cons.prems(3) have "e' = e" by simp
    with Inl show ?thesis by simp
  next
    case (Inr new)
    with Cons.prems(1,2) have "r \<in> set rs" by auto
    moreover from Cons.prems(3) have "\<forall>r\<in>set rs. \<forall>e'. check_endpoint sch r = Inl e' \<longrightarrow> e' = e" by simp
    ultimately have "validate_loop sch rs (errors @ new) = Inl e"
      using Cons.prems(2) by (intro Cons.IH)
    with Inr show ?thesis by simp
  qed
qed

lemma contains_map_of: "contains (DMap kvs) k = Inr (map_of kvs (DStr k) \<noteq> None)"
  by (simp add: map_of_eq_None_iff)

lemma check_endpoint_mapping:
  assumes "map_of m (DStr ''paths'') = Some (DMap P)"
  shows "check_endpoint (DMap m) (file_path, endpoint) =
     (case map_of P (DStr endpoint) of
        None \<Rightarrow> Inr [not_found_msg endpoint file_path]
      | Some item \<Rightarrow>
          (case keys item of
             Inl e \<Rightarrow> Inl e
           | Inr methods \<Rightarrow>
               if any_valid_method methods then Inr [] else Inr [bad_methods_msg endpoint]))"
proof -
  from assms have g: "getitem (DMap m) ''paths'' = Inr (DMap P)" by simp
  show ?thesis
  proof (cases "map_of P (DStr endpoint)")
    case None
    then have "contains (DMap P) endpoint = Inr False" by (simp only: contains_map_of) simp
    with g None show ?thesis by (simp add: check_endpoint_def)
  next
    case (Some item)
    then have "contains (DMap P) endpoint = Inr True" by (simp only: contains_map_of) simp
    moreover from Some have "getitem (DMap P) endpoint = Inr item" by simp
    ultimately show ?thesis using g Some
      by (simp add: check_endpoint_def split: sum.splits)
  qed
qed

lemma validate_endpoints_mapping:
  assumes "map_of m (DStr ''paths'') = Some P"
  shows "validate_endpoints (v\<lparr>schema := DMap m\<rparr>) = validate_loop (DMap m) (endpoints v) []"
proof -
  from assms have "m \<noteq> []" by auto
  moreover from assms have "contains (DMap m) ''paths'' = Inr True"
    by (simp only: contains_map_of) simp
  ultimately show ?thesis by (simp add: validate_endpoints_def)
qed

lemma check_endpoint_shape_ok:
  assumes "map_of m (DStr ''paths'') = Some (DMap P)"
    and "\<forall>item. map_of P (DStr (snd r)) = Some item \<longrightarrow> (\<exists>ms. item = DMap ms)"
  shows "\<exists>new. check_endpoint (DMap m) r = Inr new"
proof (cases r)
  case (Pair file_path endpoint)
  show ?thesis
  proof (cases "map_of P (DStr endpoint)")
    case None
    with assms(1) Pair show ?thesis by (simp add: check_endpoint_mapping)
  next
    case (Some item)
    with assms(2) Pair obtain ms where "item = DMap ms" by auto
    with assms(1) Pair Some show ?thesis by (simp add: check_endpoint_mapping)
  qed
qed

lemma check_endpoint_shape_bad:
  assumes "map_of m (DStr ''paths'') = Some (DMap P)"
    and "map_of P (DStr (snd r)) = Some item" and "\<nexists>ms. item = DMap ms"
  shows "check_endpoint (DMap m) r = Inl AttributeError"
proof (cases r)
  case (Pair file_path endpoint)
  from assms(3) have "keys item = Inl AttributeError" by (cases item) simp_all
  with assms(1,2) Pair show ?thesis by (simp add: check_endpoint_mapping)
qed

lemma check_endpoint_only_attribute_error:
  assumes "map_of m (DStr ''paths'') = Some (DMap P)" and "check_endpoint (DMap m) r = Inl e"
  shows "e = AttributeError"
proof (cases r)
  case (Pair file_path endpoint)
  have k: "keys item = Inl e' \<Longrightarrow> e' = AttributeError" for item e'
    by (cases item) simp_all
  from assms Pair show ?thesis
    by (auto simp add: check_endpoint_mapping split: option.splits sum.splits if_splits dest: k)
qed

lemma length_concat_le:
  assumes "\<forall>x. length (f x) \<le> 1"
  shows "length (concat (map f xs)) \<le> length xs"
proof (induction xs)
  case Nil
  show ?case by simp
next
  case (Cons x xs)
  from assms have "length (f x) \<le> 1" by simp
  with Cons show ?case by simp
qed

lemma any_valid_method_iff:
  "any_valid_method methods \<longleftrightarrow>
     (\<exists>method\<in>set methods. method \<in> DStr ` {''get'', ''post'', ''put'', ''delete'', ''patch'', ''options'', ''head''})"
  by (simp add: any_valid_method_def http_methods_def list_ex_iff)

section \<open>Facts about paths and the example inputs\<close>

lemma endswith_last: "endswith s p \<Longrightarrow> p \<noteq> [] \<Longrightarrow> last s = last p"
proof -
  assume e: "endswith s p" and n: "p \<noteq> []"
  from e have d: "drop (length s - length p) s = p" by (simp add: endswith_def)
  with n have "last (drop (length s - length p) s) = last s"
    by (metis last_drop drop_eq_Nil not_le)
  with d show ?thesis by simp
qed

lemma json_not_yaml:
  "endswith s ''.json'' \<Longrightarrow> \<not> endswith s ''.yaml'' \<and> \<not> endswith s ''.yml''"
proof -
  assume "endswith s ''.json''"
  then have "last s = CHR ''n''" by (drule_tac endswith_last) simp_all
  moreover have "last s = CHR ''l''" if "endswith s ''.yaml''"
    using that by (drule_tac endswith_last) simp_all
  moreover have "last s = CHR ''l''" if "endswith s ''.yml''"
    using that by (drule_tac endswith_last) simp_all
  ultimately show ?thesis by auto
qed

lemma example_scan:
  "scan_walk example_env (os_walk example_env ''./example_code'') eps =
     (eps @ [(''./example_code/app.py'', ''/users''), (''./example_code/app.py'', ''/items/{item_id}'')],
      None)"
  by (simp add: example_env_def example_walk_def example_open_def
        example_app_def endswith_def startswith_def path_join_def match_route_def is_quote_def Let_def)

section \<open>Facts about loading and scanning\<close>

lemma load_schema_walk_irrelevant: "load_schema (E\<lparr>os_walk := w\<rparr>) v = load_schema E v"
  by (simp add: load_schema_def split: sum.splits)

lemma load_schema_failure_state: "snd (load_schema E v) = Some e \<Longrightarrow> fst (load_schema E v) = v"
  by (auto simp add: load_schema_def split: sum.splits if_splits)

lemma main_load_failed:
  "snd (load_schema E (init cp sp)) = Some e \<Longrightarrow> main E cp sp = LoadFailed e"
  by (cases "load_schema E (init cp sp)") (simp add: main_def)

lemma scan_files_append:
  "scan_files E d (xs @ ys) eps =
     (case scan_files E d xs eps of
        (eps', Some e) \<Rightarrow> (eps', Some e)
      | (eps', None) \<Rightarrow> scan_files E d ys eps')"
proof (induction xs arbitrary: eps)
  case Nil
  show ?case by simp
next
  case (Cons x xs)
  show ?case
    by (simp add: Cons.IH Let_def split: sum.splits)
qed

lemma scan_walk_append:
  "scan_walk E (xs @ ys) eps =
     (case scan_walk E xs eps of
        (eps', Some e) \<Rightarrow> (eps', Some e)
      | (eps', None) \<Rightarrow> scan_walk E ys eps')"
proof (induction xs arbitrary: eps)
  case Nil
  show ?case by simp
next
  case (Cons x xs)
  obtain d ds fs where x: "x = (d, ds, fs)" by (cases x)
  show ?case
    by (simp add: x Cons.IH split: prod.splits option.splits)
qed

lemma scan_files_unreadable:
  assumes "endswith file ''.py''"
    and "open_file E (path_join d file) = Inl e \<or> open_file E (path_join d file) = Inr (Inl e)"
  shows "scan_files E d (file # post) eps = (eps, Some e)"
  using assms by (auto simp add: Let_def)

lemma scan_files_abort:
  assumes "endswith file ''.py''"
    and "open_file E (path_join d file) = Inl e \<or> open_file E (path_join d file) = Inr (Inl e)"
  shows "scan_files E d (pre @ file # post) eps = scan_files E d (pre @ [file]) eps"
    and "\<exists>e'. snd (scan_files E d (pre @ file # post) eps) = Some e'"
proof -
  have u: "scan_files E d (file # fs) eps' = (eps', Some e)" for fs eps'
    using assms by (rule scan_files_unreadable)
  show "scan_files E d (pre @ file # post) eps = scan_files E d (pre @ [file]) eps"
    by (simp only: scan_files_append [of E d pre] u)
  show "\<exists>e'. snd (scan_files E d (pre @ file # post) eps) = Some e'"
    by (simp only: scan_files_append [of E d pre] u) (simp split: prod.splits option.splits)
qed

lemma scan_walk_abort:
  assumes "endswith file ''.py''"
    and "open_file E (path_join d file) = Inl e \<or> open_file E (path_join d file) = Inr (Inl e)"
  shows "scan_walk E (wpre @ (d, ds, pre @ file # post) # wpost) eps =
           scan_walk E (wpre @ [(d, ds, pre @ [file])]) eps"
    and "\<exists>e'. snd (scan_walk E (wpre @ (d, ds, pre @ file # post) # wpost) eps) = Some e'"
proof -
  have a: "scan_files E d (pre @ file # fs) eps' = scan_files E d (pre @ [file]) eps'" for eps' fs
    using assms by (rule scan_files_abort(1))
  have b: "\<exists>e'. snd (scan_files E d (pre @ file # fs) eps') = Some e'" for eps' fs
    using assms by (rule scan_files_abort(2))
  have c: "scan_walk E ((d, ds, pre @ file # fs) # ws) eps' = scan_files E d (pre @ [file]) eps'"
    for ws eps' fs
  proof -
    from b [of fs eps'] obtain e' where "snd (scan_files E d (pre @ file # fs) eps') = Some e'" ..
    then obtain x where "scan_files E d (pre @ file # fs) eps' = (x, Some e')"
      by (cases "scan_files E d (pre @ file # fs) eps'") simp
    then show ?thesis using a [of fs eps'] by simp
  qed
  have l: "scan_walk E (wpre @ (d, ds, pre @ file # fs) # ws) eps =
     (case scan_walk E wpre eps of
        (eps', Some e) \<Rightarrow> (eps', Some e)
      | (eps', None) \<Rightarrow> scan_files E d (pre @ [file]) eps')" for fs ws
    by (simp only: scan_walk_append [of E wpre] c)
  show "scan_walk E (wpre @ (d, ds, pre @ file # post) # wpost) eps =
           scan_walk E (wpre @ [(d, ds, pre @ [file])]) eps"
    by (simp only: l [of post wpost] l [of "[]" "[]"])
  have "\<exists>e'. snd (scan_files E d (pre @ [file]) eps') = Some e'" for eps'
    using b [of "[]" eps'] by simp
  then show "\<exists>e'. snd (scan_walk E (wpre @ (d, ds, pre @ file # post) # wpost) eps) = Some e'"
    by (simp only: l [of post wpost]) (auto split: prod.splits option.splits)
qed

lemma find_endpoints_code_path: "code_path (fst (find_endpoints E v)) = code_path v"
  by (simp add: find_endpoints_def split: prod.splits)

lemma load_schema_code_path: "code_path (fst (load_schema E v)) = code_path v"
  by (auto simp add: load_schema_def split: sum.splits)

section \<open>Facts about what the result depends on, and about repeated scans\<close>

lemma check_endpoint_paths_only:
  "getitem s1 ''paths'' = getitem s2 ''paths'' \<Longrightarrow> check_endpoint s1 r = check_endpoint s2 r"
  by (simp add: check_endpoint_def)

lemma validate_loop_paths_only:
  assumes "getitem s1 ''paths'' = getitem s2 ''paths''"
  shows "validate_loop s1 rs errors = validate_loop s2 rs errors"
proof (induction rs arbitrary: errors)
  case Nil
  show ?case by simp
next
  case (Cons r rs)
  from assms have "check_endpoint s1 r = check_endpoint s2 r" by (rule check_endpoint_paths_only)
  with Cons.IH show ?case by (simp split: sum.splits)
qed

lemma validate_endpoints_paths_only:
  assumes "map_of m1 (DStr ''paths'') = Some P" and "map_of m2 (DStr ''paths'') = Some P"
  shows "validate_endpoints (v\<lparr>schema := DMap m1\<rparr>) = validate_endpoints (v\<lparr>schema := DMap m2\<rparr>)"
proof -
  from assms have "getitem (DMap m1) ''paths'' = getitem (DMap m2) ''paths''" by simp
  then have "validate_loop (DMap m1) (endpoints v) [] = validate_loop (DMap m2) (endpoints v) []"
    by (rule validate_loop_paths_only)
  with assms show ?thesis by (simp only: validate_endpoints_mapping)
qed

lemma validate_endpoints_fields:
  "schema v = schema w \<Longrightarrow> endpoints v = endpoints w \<Longrightarrow> validate_endpoints v = validate_endpoints w"
  by (simp add: validate_endpoints_def split: sum.splits bool.splits)

lemma find_endpoints_fields:
  "find_endpoints E v =
     (v\<lparr>endpoints := fst (scan_walk E (os_walk E (code_path v)) (endpoints v))\<rparr>,
      snd (scan_walk E (os_walk E (code_path v)) (endpoints v)))"
  by (simp add: find_endpoints_def split: prod.splits)

lemma load_schema_yaml_ok:
  assumes "open_file E (schema_path v) = Inr (Inr text)"
    and "endswith (schema_path v) ''.yaml'' \<or> endswith (schema_path v) ''.yml''"
    and "yaml_safe_load E text = Inr d"
  shows "load_schema E v = (v\<lparr>schema := d\<rparr>, None)"
  using assms by (simp add: load_schema_def parse_handle_def)

lemma load_schema_json_ok:
  assumes "open_file E (schema_path v) = Inr (Inr text)"
    and "endswith (schema_path v) ''.json''"
    and "json_load E text = Inr d"
  shows "load_schema E v = (v\<lparr>schema := d\<rparr>, None)"
  using assms json_not_yaml [of "schema_path v"] by (simp add: load_schema_def parse_handle_def)

lemma scan_files_acc:
  "scan_files E d fs eps = (eps @ fst (scan_files E d fs []), snd (scan_files E d fs []))"
proof (induction fs arbitrary: eps)
  case Nil
  show ?case by simp
next
  case (Cons f fs)
  show ?case
  proof (cases "endswith f ''.py''")
    case False
    then show ?thesis using Cons.IH [of eps] by simp
  next
    case True
    show ?thesis
    proof (cases "open_file E (path_join d f)")
      case (Inl e)
      with True show ?thesis by (simp add: Let_def)
    next
      case (Inr h)
      show ?thesis
      proof (cases h)
        case (Inl e)
        with True Inr show ?thesis by (simp add: Let_def)
      next
        case c: (Inr content)
        let ?new = "map (\<lambda>endpoint. (path_join d f, endpoint)) (findall_routes content)"
        have a: "scan_files E d fs (eps @ ?new) =
                   ((eps @ ?new) @ fst (scan_files E d fs []), snd (scan_files E d fs []))"
          by (rule Cons.IH)
        have b: "scan_files E d fs ?new =
                   (?new @ fst (scan_files E d fs []), snd (scan_files E d fs []))"
          by (rule Cons.IH)
        from True Inr c a b show ?thesis by (simp add: Let_def)
      qed
    qed
  qed
qed

lemma scan_walk_acc:
  "scan_walk E ws eps = (eps @ fst (scan_walk E ws []), snd (scan_walk E ws []))"
proof (induction ws arbitrary: eps)
  case Nil
  show ?case by simp
next
  case (Cons w ws)
  obtain d ds fs where w: "w = (d, ds, fs)" by (cases w)
  obtain new r where n: "scan_files E d fs [] = (new, r)" by (cases "scan_files E d fs []")
  have s: "scan_files E d fs eps = (eps @ new, r)"
    using scan_files_acc [of E d fs eps] n by simp
  show ?case
  proof (cases r)
    case (Some e)
    with w n s show ?thesis by simp
  next
    case None
    have a: "scan_walk E ws (eps @ new) = ((eps @ new) @ fst (scan_walk E ws []), snd (scan_walk E ws []))"
      by (rule Cons.IH)
    have b: "scan_walk E ws new = (new @ fst (scan_walk E ws []), snd (scan_walk E ws []))"
      by (rule Cons.IH)
    from None w n s a b show ?thesis by simp
  qed
qed

lemma find_endpoints_acc:
  "fst (find_endpoints E v) =
     v\<lparr>endpoints := endpoints v @ fst (scan_walk E (os_walk E (code_path v)) [])\<rparr>"
proof -
  have "fst (scan_walk E (os_walk E (code_path v)) (endpoints v)) =
          endpoints v @ fst (scan_walk E (os_walk E (code_path v)) [])"
    using scan_walk_acc [of E "os_walk E (code_path v)" "endpoints v"] by simp
  then show ?thesis by (simp add: find_endpoints_fields)
qed

lemma find_endpoints_funpow:
  "((\<lambda>s. fst (find_endpoints E s)) ^^ n) v =
     v\<lparr>endpoints := endpoints v @ concat (replicate n (fst (scan_walk E (os_walk E (code_path v)) [])))\<rparr>"
proof (induction n)
  case 0
  show ?case by simp
next
  case (Suc n)
  let ?found = "fst (scan_walk E (os_walk E (code_path v)) [])"
  let ?w = "v\<lparr>endpoints := endpoints v @ concat (replicate n ?found)\<rparr>"
  have r: "concat (replicate n ?found) @ ?found = ?found @ concat (replicate n ?found)"
    by (induction n) simp_all
  have "((\<lambda>s. fst (find_endpoints E s)) ^^ Suc n) v = fst (find_endpoints E ?w)"
    by (simp only: funpow.simps o_apply Suc.IH)
  also have "\<dots> = ?w\<lparr>endpoints := endpoints ?w @ fst (scan_walk E (os_walk E (code_path ?w)) [])\<rparr>"
    by (rule find_endpoints_acc)
  also have "\<dots> = v\<lparr>endpoints := endpoints v @ concat (replicate (Suc n) ?found)\<rparr>"
    by (simp add: r)
  finally show ?case .
qed

lemma validate_loop_append:
  "validate_loop sch (xs @ ys) [] =
     (case validate_loop sch xs [] of
        Inl e \<Rightarrow> Inl e
      | Inr a \<Rightarrow> (case validate_loop sch ys [] of Inl e \<Rightarrow> Inl e | Inr b \<Rightarrow> Inr (a @ b)))"
proof (induction xs)
  case Nil
  show ?case by (simp split: sum.splits)
next
  case (Cons x xs)
  show ?case
  proof (cases "check_endpoint sch x")
    case (Inl e)
    then show ?thesis by simp
  next
    case (Inr new)
    have "validate_loop sch ((x # xs) @ ys) [] = validate_loop sch (xs @ ys) new"
      using Inr by simp
    also have "\<dots> = (case validate_loop sch (xs @ ys) [] of Inl e \<Rightarrow> Inl e | Inr k \<Rightarrow> Inr (new @ k))"
      by (rule validate_loop_acc)
    finally have l: "validate_loop sch ((x # xs) @ ys) [] =
        (case validate_loop sch (xs @ ys) [] of Inl e \<Rightarrow> Inl e | Inr k \<Rightarrow> Inr (new @ k))" .
    have "validate_loop sch (x # xs) [] = validate_loop sch xs new" using Inr by simp
    also have "\<dots> = (case validate_loop sch xs [] of Inl e \<Rightarrow> Inl e | Inr k \<Rightarrow> Inr (new @ k))"
      by (rule validate_loop_acc)
    finally have r: "validate_loop sch (x # xs) [] =
        (case validate_loop sch xs [] of Inl e \<Rightarrow> Inl e | Inr k \<Rightarrow> Inr (new @ k))" .
    show ?thesis
      by (simp only: l r Cons.IH) (simp split: sum.splits)
  qed
qed

lemma validate_loop_replicate:
  "validate_loop sch (concat (replicate n xs)) [] =
     (case validate_loop sch xs [] of
        Inr errs \<Rightarrow> Inr (concat (replicate n errs))
      | Inl e \<Rightarrow> if n = 0 then Inr [] else Inl e)"
proof (induction n)
  case 0
  show ?case by (simp split: sum.splits)
next
  case (Suc n)
  have "validate_loop sch (concat (replicate (Suc n) xs)) [] =
          validate_loop sch (xs @ concat (replicate n xs)) []"
    by simp
  also have "\<dots> = (case validate_loop sch xs [] of
        Inl e \<Rightarrow> Inl e
      | Inr a \<Rightarrow> (case validate_loop sch (concat (replicate n xs)) [] of
                    Inl e \<Rightarrow> Inl e | Inr b \<Rightarrow> Inr (a @ b)))"
    by (rule validate_loop_append)
  finally show ?case
    by (simp add: Suc.IH split: sum.splits)
qed

lemma count_list_concat_replicate:
  "count_list (concat (replicate n xs)) r = n * count_list xs r"
  by (induction n) simp_all

lemma validate_endpoints_loop:
  assumes "truthy d" and "contains d ''paths'' = Inr True"
  shows "validate_endpoints (v\<lparr>schema := d\<rparr>) = validate_loop d (endpoints v) []"
  using assms by (simp add: validate_endpoints_def)

section \<open>The claims\<close>

text \<open>
  Claim C1, as the code has it. For every schema mapping without a \<^verbatim>\<open>paths\<close> key and every
  sequence of endpoint records, \<^verbatim>\<open>validate_endpoints\<close> returns exactly one error and looks
  at no record: the result is the same for every record sequence. The error is
  \<^verbatim>\<open>No paths defined in schema\<close> when the mapping is not empty, and
  \<^verbatim>\<open>Schema not loaded.\<close> when it is the empty mapping, which the first test of the
  method takes for a schema that was never loaded.
\<close>

theorem C1_no_paths_key:
  assumes "map_of m (DStr ''paths'') = None"
  shows "validate_endpoints (v\<lparr>schema := DMap m, endpoints := eps\<rparr>) =
           Inr [if m = [] then ''Schema not loaded.'' else ''No paths defined in schema'']"
proof -
  from assms have "contains (DMap m) ''paths'' = Inr False"
    by (simp only: contains_map_of) simp
  then show ?thesis by (simp add: validate_endpoints_def)
qed

theorem C1_no_paths_key_witness:
  "map_of [(DStr ''openapi'', DStr ''3.0.0'')] (DStr ''paths'') = None
   \<and> validate_endpoints
         \<lparr>code_path = ''.'', schema_path = ''s.json'', endpoints = [(''a.py'', ''/users'')],
          schema = DMap [(DStr ''openapi'', DStr ''3.0.0'')]\<rparr>
       = Inr [''No paths defined in schema'']"
proof -
  have h: "map_of [(DStr ''openapi'', DStr ''3.0.0'')] (DStr ''paths'') = None" by simp
  from C1_no_paths_key [OF h, where v = "init ''.'' ''s.json''" and eps = "[(''a.py'', ''/users'')]"]
  show ?thesis by (simp add: init_def)
qed

text \<open>
  The claim as written fails at the empty mapping, which has no \<^verbatim>\<open>paths\<close> key: the
  answer there is \<^verbatim>\<open>Schema not loaded.\<close>
\<close>

theorem C1_empty_mapping_counterexample:
  "map_of [] (DStr ''paths'') = None
   \<and> validate_endpoints
         \<lparr>code_path = ''.'', schema_path = ''s.json'', endpoints = [(''a.py'', ''/users'')],
          schema = DMap []\<rparr>
       = Inr [''Schema not loaded.'']
   \<and> validate_endpoints
         \<lparr>code_path = ''.'', schema_path = ''s.json'', endpoints = [(''a.py'', ''/users'')],
          schema = DMap []\<rparr>
       \<noteq> Inr [''No paths defined in schema'']"
  by (simp add: validate_endpoints_def)

text \<open>
  Claim C2, as the code has it. For the schema \<^verbatim>\<open>{"paths": {}}\<close> and the records
  \<^verbatim>\<open>[("a.py", "/users")]\<close> the mapping is not empty and has the key \<^verbatim>\<open>paths\<close>, so the
  loop runs: the one error is that the endpoint \<^verbatim>\<open>/users\<close> is not found in the schema,
  and the run ends with status 1.
\<close>

theorem C2_scenario_B:
  "validate_endpoints
     \<lparr>code_path = ''.'', schema_path = ''s.json'', endpoints = [(''a.py'', ''/users'')],
      schema = DMap [(DStr ''paths'', DMap [])]\<rparr>
     = Inr [''Endpoint '/users' (defined in a.py) not found in schema.'']
   \<and> exit_status (report
     \<lparr>code_path = ''.'', schema_path = ''s.json'', endpoints = [(''a.py'', ''/users'')],
      schema = DMap [(DStr ''paths'', DMap [])]\<rparr>) = 1"
  by (simp add: validate_endpoints_def check_endpoint_def not_found_msg_def report_def)

text \<open>The error of the claim as written is not what the call returns.\<close>

theorem C2_scenario_B_counterexample:
  "validate_endpoints
     \<lparr>code_path = ''.'', schema_path = ''s.json'', endpoints = [(''a.py'', ''/users'')],
      schema = DMap [(DStr ''paths'', DMap [])]\<rparr>
     \<noteq> Inr [''No paths defined in schema'']"
  by (simp add: validate_endpoints_def check_endpoint_def not_found_msg_def)

text \<open>
  Claim C3, as the code has it. \<^verbatim>\<open>validate_endpoints\<close> returns a list of errors, and raises
  nothing, when the schema is falsy, when it is a mapping without a \<^verbatim>\<open>paths\<close> key, and when
  it is a mapping whose \<^verbatim>\<open>paths\<close> value is a mapping in which every scanned path that is
  present maps to a mapping. When \<^verbatim>\<open>paths\<close> is a mapping and some scanned path maps to a
  value that is not a mapping (null, a scalar, a sequence), the call of \<^verbatim>\<open>keys\<close> on that
  value raises \<^verbatim>\<open>AttributeError\<close> and the method returns no list.
\<close>

theorem C3_validate_returns:
  "(\<not> truthy (schema v) \<longrightarrow> (\<exists>errs. validate_endpoints v = Inr errs))
   \<and> (schema v = DMap m \<and> map_of m (DStr ''paths'') = None
        \<longrightarrow> (\<exists>errs. validate_endpoints v = Inr errs))
   \<and> (schema v = DMap m \<and> map_of m (DStr ''paths'') = Some (DMap P)
        \<longrightarrow> (if \<forall>r\<in>set (endpoints v). \<forall>item. map_of P (DStr (snd r)) = Some item
                     \<longrightarrow> (\<exists>ms. item = DMap ms)
             then \<exists>errs. validate_endpoints v = Inr errs
             else validate_endpoints v = Inl AttributeError))"
proof (intro conjI impI)
  assume "\<not> truthy (schema v)"
  then show "\<exists>errs. validate_endpoints v = Inr errs" by (simp add: validate_endpoints_def)
next
  assume a: "schema v = DMap m \<and> map_of m (DStr ''paths'') = None"
  then have "contains (schema v) ''paths'' = Inr False" by (simp only: contains_map_of) simp
  then show "\<exists>errs. validate_endpoints v = Inr errs" by (simp add: validate_endpoints_def)
next
  assume a: "schema v = DMap m \<and> map_of m (DStr ''paths'') = Some (DMap P)"
  then have p: "map_of m (DStr ''paths'') = Some (DMap P)" by simp
  from a have "v = v\<lparr>schema := DMap m\<rparr>" by simp
  then have "validate_endpoints v = validate_endpoints (v\<lparr>schema := DMap m\<rparr>)" by simp
  with p have l: "validate_endpoints v = validate_loop (DMap m) (endpoints v) []"
    by (simp only: validate_endpoints_mapping)
  show "if \<forall>r\<in>set (endpoints v). \<forall>item. map_of P (DStr (snd r)) = Some item
                     \<longrightarrow> (\<exists>ms. item = DMap ms)
        then \<exists>errs. validate_endpoints v = Inr errs
        else validate_endpoints v = Inl AttributeError"
  proof (cases "\<forall>r\<in>set (endpoints v). \<forall>item. map_of P (DStr (snd r)) = Some item
                     \<longrightarrow> (\<exists>ms. item = DMap ms)")
    case True
    then have "\<forall>r\<in>set (endpoints v). \<exists>new. check_endpoint (DMap m) r = Inr new"
      using check_endpoint_shape_ok [OF p] by blast
    then have "\<exists>errs. validate_loop (DMap m) (endpoints v) [] = Inr errs"
      by (simp add: validate_loop_all_ok)
    with l True show ?thesis by simp
  next
    case False
    then obtain r item where r: "r \<in> set (endpoints v)"
      and i: "map_of P (DStr (snd r)) = Some item" and n: "\<nexists>ms. item = DMap ms" by blast
    from p i n have "check_endpoint (DMap m) r = Inl AttributeError"
      by (rule check_endpoint_shape_bad)
    moreover have "\<forall>r\<in>set (endpoints v). \<forall>e'. check_endpoint (DMap m) r = Inl e' \<longrightarrow> e' = AttributeError"
      using check_endpoint_only_attribute_error [OF p] by blast
    ultimately have "validate_loop (DMap m) (endpoints v) [] = Inl AttributeError"
      using r by (intro validate_loop_raises)
    with l False show ?thesis by simp
  qed
qed

theorem C3_validate_returns_witness:
  "(\<exists>errs. validate_endpoints
       \<lparr>code_path = ''.'', schema_path = ''s.yaml'', endpoints = [(''a.py'', ''/users'')],
        schema = DMap [(DStr ''paths'', DMap [(DStr ''/users'', DMap [])])]\<rparr> = Inr errs)
   \<and> validate_endpoints
       \<lparr>code_path = ''.'', schema_path = ''s.yaml'', endpoints = [(''a.py'', ''/users'')],
        schema = DMap [(DStr ''paths'', DMap [(DStr ''/users'', DInt 1)])]\<rparr> = Inl AttributeError"
proof -
  let ?ok = "\<lparr>code_path = ''.'', schema_path = ''s.yaml'', endpoints = [(''a.py'', ''/users'')],
        schema = DMap [(DStr ''paths'', DMap [(DStr ''/users'', DMap [])])]\<rparr>"
  let ?bad = "\<lparr>code_path = ''.'', schema_path = ''s.yaml'', endpoints = [(''a.py'', ''/users'')],
        schema = DMap [(DStr ''paths'', DMap [(DStr ''/users'', DInt 1)])]\<rparr>"
  from C3_validate_returns [of ?ok "[(DStr ''paths'', DMap [(DStr ''/users'', DMap [])])]"
      "[(DStr ''/users'', DMap [])]"]
  have a: "\<exists>errs. validate_endpoints ?ok = Inr errs" by simp
  from C3_validate_returns [of ?bad "[(DStr ''paths'', DMap [(DStr ''/users'', DInt 1)])]"
      "[(DStr ''/users'', DInt 1)]"]
  have b: "validate_endpoints ?bad = Inl AttributeError" by simp
  from a b show ?thesis by simp
qed

text \<open>
  The claim as written fails where a scanned path's entry in the schema is null, and
  where it is a scalar: the method raises.
\<close>

theorem C3_null_methods_counterexample:
  "validate_endpoints
     \<lparr>code_path = ''.'', schema_path = ''s.yaml'', endpoints = [(''a.py'', ''/users'')],
      schema = DMap [(DStr ''paths'', DMap [(DStr ''/users'', DNull)])]\<rparr> = Inl AttributeError
   \<and> validate_endpoints
     \<lparr>code_path = ''.'', schema_path = ''s.yaml'', endpoints = [(''a.py'', ''/users'')],
      schema = DMap [(DStr ''paths'', DMap [(DStr ''/users'', DStr ''todo'')])]\<rparr> = Inl AttributeError"
  by (simp add: validate_endpoints_def check_endpoint_def)

text \<open>
  Claim C4, as the code has it. Take a schema mapping whose \<^verbatim>\<open>paths\<close> value is a mapping, and
  endpoint records such that every scanned path present in \<^verbatim>\<open>paths\<close> maps to a mapping.
  Then the result is the concatenation, in the order of the records, of what each record
  yields; a record yields at most one error, so there are at most as many errors as
  records; a record whose path is absent from \<^verbatim>\<open>paths\<close> yields exactly the not-found
  message with its path and its file; a record whose path is present yields nothing when
  one of the keys of its method mapping is one of the seven lower-case method names, and
  exactly the no-valid-methods message otherwise.
\<close>

theorem C4_one_error_per_record:
  assumes "map_of m (DStr ''paths'') = Some (DMap P)"
    and "\<forall>r\<in>set eps. \<forall>item. map_of P (DStr (snd r)) = Some item \<longrightarrow> (\<exists>ms. item = DMap ms)"
  shows "\<exists>errs.
      validate_endpoints (v\<lparr>schema := DMap m, endpoints := eps\<rparr>) = Inr (concat (map errs eps))
    \<and> (\<forall>r. length (errs r) \<le> 1)
    \<and> length (concat (map errs eps)) \<le> length eps
    \<and> (\<forall>file_path endpoint. map_of P (DStr endpoint) = None \<longrightarrow>
          errs (file_path, endpoint) =
            [''Endpoint '' @ [CHR 0x27] @ endpoint @ [CHR 0x27] @ '' (defined in '' @ file_path
               @ '') not found in schema.''])
    \<and> (\<forall>file_path endpoint ms. map_of P (DStr endpoint) = Some (DMap ms) \<longrightarrow>
          errs (file_path, endpoint) =
            (if \<exists>method\<in>set (map fst ms). method \<in>
                  DStr ` {''get'', ''post'', ''put'', ''delete'', ''patch'', ''options'', ''head''}
             then []
             else [''Endpoint '' @ [CHR 0x27] @ endpoint @ [CHR 0x27]
                     @ '' in schema does not define valid HTTP methods.'']))"
proof -
  define errs where
    "errs = (\<lambda>r. case check_endpoint (DMap m) r of Inr new \<Rightarrow> new | Inl e \<Rightarrow> [])"
  have ok: "\<forall>r\<in>set eps. \<exists>new. check_endpoint (DMap m) r = Inr new"
    using assms(2) check_endpoint_shape_ok [OF assms(1)] by blast
  have eq: "v\<lparr>schema := DMap m, endpoints := eps\<rparr> = (v\<lparr>endpoints := eps\<rparr>)\<lparr>schema := DMap m\<rparr>"
    by (cases v) simp
  have "validate_endpoints ((v\<lparr>endpoints := eps\<rparr>)\<lparr>schema := DMap m\<rparr>) =
          validate_loop (DMap m) (endpoints (v\<lparr>endpoints := eps\<rparr>)) []"
    using assms(1) by (rule validate_endpoints_mapping)
  also have "endpoints (v\<lparr>endpoints := eps\<rparr>) = eps" by simp
  finally have "validate_endpoints (v\<lparr>schema := DMap m, endpoints := eps\<rparr>) =
          validate_loop (DMap m) eps []"
    by (simp only: eq)
  with ok have 1: "validate_endpoints (v\<lparr>schema := DMap m, endpoints := eps\<rparr>) =
          Inr (concat (map errs eps))"
    by (simp add: validate_loop_all_ok errs_def)
  have 2: "\<forall>r. length (errs r) \<le> 1"
  proof
    fix r :: endpoint_record
    obtain file_path endpoint where r: "r = (file_path, endpoint)" by (cases r)
    show "length (errs r) \<le> 1"
      unfolding errs_def r check_endpoint_mapping [OF assms(1)]
      by (simp split: option.splits sum.splits)
  qed
  from 2 have 3: "length (concat (map errs eps)) \<le> length eps" by (rule length_concat_le)
  have 4: "\<forall>file_path endpoint. map_of P (DStr endpoint) = None \<longrightarrow>
          errs (file_path, endpoint) =
            [''Endpoint '' @ [CHR 0x27] @ endpoint @ [CHR 0x27] @ '' (defined in '' @ file_path
               @ '') not found in schema.'']"
    unfolding errs_def check_endpoint_mapping [OF assms(1)]
    by (simp add: not_found_msg_def)
  have 5: "\<forall>file_path endpoint ms. map_of P (DStr endpoint) = Some (DMap ms) \<longrightarrow>
          errs (file_path, endpoint) =
            (if \<exists>method\<in>set (map fst ms). method \<in>
                  DStr ` {''get'', ''post'', ''put'', ''delete'', ''patch'', ''options'', ''head''}
             then []
             else [''Endpoint '' @ [CHR 0x27] @ endpoint @ [CHR 0x27]
                     @ '' in schema does not define valid HTTP methods.''])"
    unfolding errs_def check_endpoint_mapping [OF assms(1)]
    by (simp add: bad_methods_msg_def any_valid_method_iff del: set_map)
  from 1 2 3 4 5 show ?thesis by blast
qed

theorem C4_one_error_per_record_witness:
  "validate_endpoints
     \<lparr>code_path = ''.'', schema_path = ''s.yaml'',
      endpoints = [(''a.py'', ''/items''), (''a.py'', ''/users''), (''b.py'', ''/admin''),
                   (''b.py'', ''/empty'')],
      schema = DMap [(DStr ''paths'',
                 DMap [(DStr ''/users'', DMap [(DStr ''get'', DMap [])]),
                       (DStr ''/admin'', DMap [(DStr ''GET'', DMap [])]),
                       (DStr ''/empty'', DMap [])])]\<rparr>
   = Inr [''Endpoint '/items' (defined in a.py) not found in schema.'',
          ''Endpoint '/admin' in schema does not define valid HTTP methods.'',
          ''Endpoint '/empty' in schema does not define valid HTTP methods.'']"
proof -
  let ?P = "[(DStr ''/users'', DMap [(DStr ''get'', DMap [])]),
             (DStr ''/admin'', DMap [(DStr ''GET'', DMap [])]),
             (DStr ''/empty'', DMap [])]"
  let ?m = "[(DStr ''paths'', DMap ?P)]"
  let ?eps = "[(''a.py'', ''/items''), (''a.py'', ''/users''), (''b.py'', ''/admin''),
               (''b.py'', ''/empty'')]"
  have h1: "map_of ?m (DStr ''paths'') = Some (DMap ?P)" by simp
  have h2: "\<forall>r\<in>set ?eps. \<forall>item. map_of ?P (DStr (snd r)) = Some item \<longrightarrow> (\<exists>ms. item = DMap ms)"
    by simp
  from C4_one_error_per_record [OF h1 h2, where v = "init ''.'' ''s.yaml''"]
  obtain errs where
    r: "validate_endpoints ((init ''.'' ''s.yaml'')\<lparr>schema := DMap ?m, endpoints := ?eps\<rparr>)
          = Inr (concat (map errs ?eps))"
    and nf: "\<forall>file_path endpoint. map_of ?P (DStr endpoint) = None \<longrightarrow>
          errs (file_path, endpoint) =
            [''Endpoint '' @ [CHR 0x27] @ endpoint @ [CHR 0x27] @ '' (defined in '' @ file_path
               @ '') not found in schema.'']"
    and bm: "\<forall>file_path endpoint ms. map_of ?P (DStr endpoint) = Some (DMap ms) \<longrightarrow>
          errs (file_path, endpoint) =
            (if \<exists>method\<in>set (map fst ms). method \<in>
                  DStr ` {''get'', ''post'', ''put'', ''delete'', ''patch'', ''options'', ''head''}
             then []
             else [''Endpoint '' @ [CHR 0x27] @ endpoint @ [CHR 0x27]
                     @ '' in schema does not define valid HTTP methods.''])"
    by blast
  from nf have a: "errs (''a.py'', ''/items'') = [''Endpoint '/items' (defined in a.py) not found in schema.'']"
    by simp
  from bm [rule_format, of "''/users''" "[(DStr ''get'', DMap [])]" "''a.py''"]
  have b: "errs (''a.py'', ''/users'') = []" by simp
  from bm [rule_format, of "''/admin''" "[(DStr ''GET'', DMap [])]" "''b.py''"]
  have c: "errs (''b.py'', ''/admin'') = [''Endpoint '/admin' in schema does not define valid HTTP methods.'']"
    by simp
  from bm [rule_format, of "''/empty''" "[]" "''b.py''"]
  have d: "errs (''b.py'', ''/empty'') = [''Endpoint '/empty' in schema does not define valid HTTP methods.'']"
    by simp
  from r a b c d show ?thesis by (simp add: init_def)
qed

text \<open>
  Without the condition on the shape the claim fails: here the first record's path is
  absent from \<^verbatim>\<open>paths\<close>, and no not-found message comes out, because the second record's
  entry is null and the method raises.
\<close>

theorem C4_null_methods_counterexample:
  "map_of [(DStr ''paths'', DMap [(DStr ''/a'', DNull)])] (DStr ''paths'')
     = Some (DMap [(DStr ''/a'', DNull)])
   \<and> map_of [(DStr ''/a'', DNull)] (DStr ''/b'') = None
   \<and> validate_endpoints
       \<lparr>code_path = ''.'', schema_path = ''s.yaml'',
        endpoints = [(''f.py'', ''/b''), (''f.py'', ''/a'')],
        schema = DMap [(DStr ''paths'', DMap [(DStr ''/a'', DNull)])]\<rparr> = Inl AttributeError"
  by (simp add: validate_endpoints_def check_endpoint_def)

text \<open>
  Claim C5. With the schema absent (\<^verbatim>\<open>None\<close>), \<^verbatim>\<open>validate_endpoints\<close> raises nothing
  and returns the one error \<^verbatim>\<open>Schema not loaded.\<close>, whatever the endpoint records are.
  That is the state of a validator before \<^verbatim>\<open>load_schema\<close>: right after construction, and
  also after a scan.
\<close>

theorem C5_not_loaded:
  "validate_endpoints (v\<lparr>schema := DNull\<rparr>) = Inr [''Schema not loaded.'']
   \<and> validate_endpoints (init cp sp) = Inr [''Schema not loaded.'']
   \<and> validate_endpoints (fst (find_endpoints E (init cp sp))) = Inr [''Schema not loaded.'']"
proof -
  have "schema (fst (find_endpoints E (init cp sp))) = DNull"
    by (simp add: find_endpoints_def init_def split: prod.splits)
  then show ?thesis
    by (simp add: validate_endpoints_def init_def)
qed

theorem C5_not_loaded_witness:
  "validate_endpoints (fst (find_endpoints example_env (init ''./example_code'' ''./example_schema.yaml'')))
     = Inr [''Schema not loaded.'']
   \<and> endpoints (fst (find_endpoints example_env (init ''./example_code'' ''./example_schema.yaml'')))
     = [(''./example_code/app.py'', ''/users''), (''./example_code/app.py'', ''/items/{item_id}'')]"
proof -
  have "endpoints (fst (find_endpoints example_env (init ''./example_code'' ''./example_schema.yaml'')))
     = [(''./example_code/app.py'', ''/users''), (''./example_code/app.py'', ''/items/{item_id}'')]"
    by (simp add: find_endpoints_def init_def example_scan)
  with C5_not_loaded [of undefined "''./example_code''" "''./example_schema.yaml''" example_env]
  show ?thesis by simp
qed

text \<open>
  Claim C6, as the code has it. \<^verbatim>\<open>load_schema\<close> opens the file first: when the open fails
  it raises the error of the open (not-found for a file that does not exist), whatever
  the extension. When the file opens and the extension is none of \<^verbatim>\<open>.yaml\<close>, \<^verbatim>\<open>.yml\<close>,
  \<^verbatim>\<open>.json\<close>, it raises the unsupported-format error without reading the file. When the
  extension is supported and the parser rejects the text, it raises the parser's own
  error, with its diagnostic. On every failure the validator is left as it was, so no
  partial schema exists, and \<^verbatim>\<open>main\<close> ends with status 1 whatever the code tree holds:
  nothing is scanned.
\<close>

theorem C6_load_schema_failures:
  "(open_file E (schema_path v) = Inl e \<longrightarrow> load_schema E v = (v, Some e))
   \<and> (open_file E (schema_path v) = Inr f
        \<and> \<not> endswith (schema_path v) ''.yaml'' \<and> \<not> endswith (schema_path v) ''.yml''
        \<and> \<not> endswith (schema_path v) ''.json''
      \<longrightarrow> load_schema E v =
            (v, Some (ValueError ''Unsupported schema file format. Only YAML and JSON are supported.'')))
   \<and> (open_file E (schema_path v) = Inr (Inr content)
        \<and> (endswith (schema_path v) ''.yaml'' \<or> endswith (schema_path v) ''.yml'')
        \<and> yaml_safe_load E content = Inl e
      \<longrightarrow> load_schema E v = (v, Some e))
   \<and> (open_file E (schema_path v) = Inr (Inr content)
        \<and> endswith (schema_path v) ''.json'' \<and> json_load E content = Inl e
      \<longrightarrow> load_schema E v = (v, Some e))
   \<and> (snd (load_schema E v) = Some e \<longrightarrow> fst (load_schema E v) = v)
   \<and> (snd (load_schema E (init cp sp)) = Some e
      \<longrightarrow> (\<forall>w. main (E\<lparr>os_walk := w\<rparr>) cp sp = LoadFailed e) \<and> exit_status (main E cp sp) = 1)"
proof (intro conjI impI)
  assume "open_file E (schema_path v) = Inl e"
  then show "load_schema E v = (v, Some e)" by (simp add: load_schema_def)
next
  assume "open_file E (schema_path v) = Inr f
        \<and> \<not> endswith (schema_path v) ''.yaml'' \<and> \<not> endswith (schema_path v) ''.yml''
        \<and> \<not> endswith (schema_path v) ''.json''"
  then show "load_schema E v =
            (v, Some (ValueError ''Unsupported schema file format. Only YAML and JSON are supported.''))"
    by (simp add: load_schema_def)
next
  assume "open_file E (schema_path v) = Inr (Inr content)
        \<and> (endswith (schema_path v) ''.yaml'' \<or> endswith (schema_path v) ''.yml'')
        \<and> yaml_safe_load E content = Inl e"
  then show "load_schema E v = (v, Some e)"
    by (simp add: load_schema_def parse_handle_def)
next
  assume a: "open_file E (schema_path v) = Inr (Inr content)
        \<and> endswith (schema_path v) ''.json'' \<and> json_load E content = Inl e"
  then have "\<not> endswith (schema_path v) ''.yaml'' \<and> \<not> endswith (schema_path v) ''.yml''"
    by (simp add: json_not_yaml)
  with a show "load_schema E v = (v, Some e)"
    by (simp add: load_schema_def parse_handle_def)
next
  assume "snd (load_schema E v) = Some e"
  then show "fst (load_schema E v) = v" by (rule load_schema_failure_state)
next
  assume a: "snd (load_schema E (init cp sp)) = Some e"
  show "\<forall>w. main (E\<lparr>os_walk := w\<rparr>) cp sp = LoadFailed e"
  proof
    fix w
    from a have "snd (load_schema (E\<lparr>os_walk := w\<rparr>) (init cp sp)) = Some e"
      by (simp only: load_schema_walk_irrelevant)
    then show "main (E\<lparr>os_walk := w\<rparr>) cp sp = LoadFailed e" by (rule main_load_failed)
  qed
next
  assume "snd (load_schema E (init cp sp)) = Some e"
  then have "main E cp sp = LoadFailed e" by (rule main_load_failed)
  then show "exit_status (main E cp sp) = 1" by simp
qed

theorem C6_load_schema_failures_witness:
  "load_schema example_env (init ''./example_code'' ''./missing.yaml'')
     = (init ''./example_code'' ''./missing.yaml'', Some FileNotFoundError)
   \<and> load_schema example_env (init ''./example_code'' ''./schema.txt'')
     = (init ''./example_code'' ''./schema.txt'',
        Some (ValueError ''Unsupported schema file format. Only YAML and JSON are supported.''))
   \<and> load_schema example_env (init ''./example_code'' ''./broken.yml'')
     = (init ''./example_code'' ''./broken.yml'',
        Some (YAMLError ''while parsing a flow sequence: expected ',' or ']' but got end of stream''))
   \<and> load_schema example_env (init ''./example_code'' ''./broken.json'')
     = (init ''./example_code'' ''./broken.json'',
        Some (JSONDecodeError
          ''Expecting property name enclosed in double quotes: line 1 column 2 (char 1)''))
   \<and> main example_env ''./example_code'' ''./schema.txt''
     = LoadFailed (ValueError ''Unsupported schema file format. Only YAML and JSON are supported.'')
   \<and> exit_status (main example_env ''./example_code'' ''./schema.txt'') = 1"
proof -
  note ex = example_env_def example_open_def example_yaml_def example_json_def init_def
    endswith_def
  have 1: "load_schema example_env (init ''./example_code'' ''./missing.yaml'')
     = (init ''./example_code'' ''./missing.yaml'', Some FileNotFoundError)"
    using C6_load_schema_failures [of example_env "init ''./example_code'' ''./missing.yaml''"
        FileNotFoundError]
    by (simp add: ex)
  have 2: "load_schema example_env (init ''./example_code'' ''./schema.txt'')
     = (init ''./example_code'' ''./schema.txt'',
        Some (ValueError ''Unsupported schema file format. Only YAML and JSON are supported.''))"
    using C6_load_schema_failures [of example_env "init ''./example_code'' ''./schema.txt''"
        _ "Inr ''paths: {}''"]
    by (simp add: ex)
  have 3: "load_schema example_env (init ''./example_code'' ''./broken.yml'')
     = (init ''./example_code'' ''./broken.yml'',
        Some (YAMLError ''while parsing a flow sequence: expected ',' or ']' but got end of stream''))"
    using C6_load_schema_failures [of example_env "init ''./example_code'' ''./broken.yml''"
        "YAMLError ''while parsing a flow sequence: expected ',' or ']' but got end of stream''"
        _ "''a: [''"]
    by (simp add: ex)
  have 4: "load_schema example_env (init ''./example_code'' ''./broken.json'')
     = (init ''./example_code'' ''./broken.json'',
        Some (JSONDecodeError
          ''Expecting property name enclosed in double quotes: line 1 column 2 (char 1)''))"
    using C6_load_schema_failures [of example_env "init ''./example_code'' ''./broken.json''"
        "JSONDecodeError ''Expecting property name enclosed in double quotes: line 1 column 2 (char 1)''"
        _ "''{''"]
    by (simp add: ex)
  have 5: "main example_env ''./example_code'' ''./schema.txt''
     = LoadFailed (ValueError ''Unsupported schema file format. Only YAML and JSON are supported.'')
     \<and> exit_status (main example_env ''./example_code'' ''./schema.txt'') = 1"
    using C6_load_schema_failures [of example_env _
        "ValueError ''Unsupported schema file format. Only YAML and JSON are supported.''"
        _ _ "''./example_code''" "''./schema.txt''"] 2
    by (simp add: main_def)
  from 1 2 3 4 5 show ?thesis by simp
qed

text \<open>
  The claim as written has the extension checked before any work. The file is opened
  before: with an extension that is not supported, a file that cannot be opened gives
  the error of the open, not the unsupported-format error.
\<close>

theorem C6_open_before_extension_counterexample:
  "\<not> endswith ''./locked.txt'' ''.yaml'' \<and> \<not> endswith ''./locked.txt'' ''.yml''
   \<and> \<not> endswith ''./locked.txt'' ''.json''
   \<and> load_schema example_env (init ''./example_code'' ''./locked.txt'')
       = (init ''./example_code'' ''./locked.txt'', Some PermissionError)
   \<and> load_schema example_env (init ''./example_code'' ''./missing.txt'')
       = (init ''./example_code'' ''./missing.txt'', Some FileNotFoundError)"
  by (simp add: load_schema_def example_env_def example_open_def init_def endswith_def)

text \<open>
  Claim C7. When a file listed by the walk has a name ending in \<^verbatim>\<open>.py\<close> (the files the scan
  opens) and cannot be opened or read, \<^verbatim>\<open>find_endpoints\<close> raises. Nothing is skipped:
  the files and directories after the unreadable one are not looked at, so the scan is
  the same as if the walk ended there. In \<^verbatim>\<open>main\<close> the run then ends with status 1 in the
  load or in the scan, and \<^verbatim>\<open>validate_endpoints\<close> is not reached.
\<close>

theorem C7_unreadable_file_aborts_scan:
  assumes "(dirpath, dirnames, files) \<in> set (os_walk E cp)"
    and "file \<in> set files" and "endswith file ''.py''"
    and "open_file E (path_join dirpath file) = Inl e
         \<or> open_file E (path_join dirpath file) = Inr (Inl e)"
  shows "(\<forall>v. code_path v = cp \<longrightarrow> (\<exists>e'. snd (find_endpoints E v) = Some e'))
    \<and> (\<forall>wpre pre post wpost eps.
          scan_walk E (wpre @ (dirpath, dirnames, pre @ file # post) # wpost) eps =
            scan_walk E (wpre @ [(dirpath, dirnames, pre @ [file])]) eps)
    \<and> (\<exists>e'. main E cp sp = LoadFailed e' \<or> main E cp sp = ScanFailed e')
    \<and> exit_status (main E cp sp) = 1"
proof -
  from assms(2) obtain pre post where f: "files = pre @ file # post"
    by (auto simp add: in_set_conv_decomp)
  from assms(1) obtain wpre wpost where w: "os_walk E cp = wpre @ (dirpath, dirnames, files) # wpost"
    by (auto simp add: in_set_conv_decomp)
  have s: "\<exists>e'. snd (scan_walk E (os_walk E cp) eps) = Some e'" for eps
    unfolding w f using assms(3,4) by (rule scan_walk_abort(2))
  have 1: "\<forall>v. code_path v = cp \<longrightarrow> (\<exists>e'. snd (find_endpoints E v) = Some e')"
  proof (intro allI impI)
    fix v :: validator
    assume "code_path v = cp"
    with s [of "endpoints v"] show "\<exists>e'. snd (find_endpoints E v) = Some e'"
      by (auto simp add: find_endpoints_def split: prod.splits)
  qed
  have 2: "\<forall>wpre pre post wpost eps.
          scan_walk E (wpre @ (dirpath, dirnames, pre @ file # post) # wpost) eps =
            scan_walk E (wpre @ [(dirpath, dirnames, pre @ [file])]) eps"
    using assms(3,4) by (intro allI scan_walk_abort(1))
  have 3: "\<exists>e'. main E cp sp = LoadFailed e' \<or> main E cp sp = ScanFailed e'"
  proof (cases "load_schema E (init cp sp)")
    case (Pair v1 r)
    show ?thesis
    proof (cases r)
      case None
      from Pair have "code_path v1 = code_path (init cp sp)"
        using load_schema_code_path [of E "init cp sp"] by simp
      then have "code_path v1 = cp" by (simp add: init_def)
      with 1 obtain e' where "snd (find_endpoints E v1) = Some e'" by blast
      then obtain v2 where "find_endpoints E v1 = (v2, Some e')"
        by (cases "find_endpoints E v1") simp
      with Pair None have "main E cp sp = ScanFailed e'" by (simp add: main_def)
      then show ?thesis by blast
    next
      case (Some e')
      with Pair have "main E cp sp = LoadFailed e'" by (simp add: main_def)
      then show ?thesis by blast
    qed
  qed
  from 3 have 4: "exit_status (main E cp sp) = 1" by auto
  from 1 2 3 4 show ?thesis by blast
qed

theorem C7_unreadable_file_aborts_scan_witness:
  "(\<exists>e'. snd (find_endpoints example_env (init ''./locked_code'' ''./example_schema.yaml'')) = Some e')
   \<and> exit_status (main example_env ''./locked_code'' ''./example_schema.yaml'') = 1
   \<and> find_endpoints example_env (init ''./locked_code'' ''./example_schema.yaml'')
       = ((init ''./locked_code'' ''./example_schema.yaml'')
            \<lparr>endpoints := [(''./locked_code/first.py'', ''/first'')]\<rparr>, Some PermissionError)"
proof -
  have m: "(''./locked_code'', [], [''first.py'', ''locked.py'', ''later.py''])
             \<in> set (os_walk example_env ''./locked_code'')"
    by (simp add: example_env_def example_walk_def)
  have f: "''locked.py'' \<in> set [''first.py'', ''locked.py'', ''later.py'']" by simp
  have p: "endswith ''locked.py'' ''.py''" by (simp add: endswith_def)
  have u: "open_file example_env (path_join ''./locked_code'' ''locked.py'') = Inl PermissionError
         \<or> open_file example_env (path_join ''./locked_code'' ''locked.py'') = Inr (Inl PermissionError)"
    by (simp add: example_env_def example_open_def path_join_def startswith_def endswith_def)
  have c: "find_endpoints example_env (init ''./locked_code'' ''./example_schema.yaml'')
       = ((init ''./locked_code'' ''./example_schema.yaml'')
            \<lparr>endpoints := [(''./locked_code/first.py'', ''/first'')]\<rparr>, Some PermissionError)"
    by (simp add: find_endpoints_def init_def example_env_def example_walk_def example_open_def
        endswith_def startswith_def path_join_def match_route_def is_quote_def Let_def)
  from C7_unreadable_file_aborts_scan [OF m f p u, of "''./example_schema.yaml''"] c
  show ?thesis by (simp add: init_def)
qed

text \<open>
  Claim C8. Take a YAML file and a JSON file that both load, either to the same document
  or to two mappings with the same value under \<^verbatim>\<open>paths\<close>. Then both loads succeed, each
  through its own branch, and for every sequence of endpoint records
  \<^verbatim>\<open>validate_endpoints\<close> gives the same result after the one as after the other: the same
  errors in the same order, or the same exception. A whole run of \<^verbatim>\<open>main\<close> on the same code
  tree ends the same way with either file.
\<close>

theorem C8_yaml_json_same_result:
  assumes "open_file E yp = Inr (Inr ytext)"
    and "endswith yp ''.yaml'' \<or> endswith yp ''.yml''"
    and "yaml_safe_load E ytext = Inr dy"
    and "open_file E jp = Inr (Inr jtext)"
    and "endswith jp ''.json''"
    and "json_load E jtext = Inr dj"
    and "dy = dj \<or> (\<exists>my mj P. dy = DMap my \<and> dj = DMap mj
           \<and> map_of my (DStr ''paths'') = Some P \<and> map_of mj (DStr ''paths'') = Some P)"
  shows "load_schema E \<lparr>code_path = cp, schema_path = yp, endpoints = eps, schema = s0\<rparr>
           = (\<lparr>code_path = cp, schema_path = yp, endpoints = eps, schema = dy\<rparr>, None)
    \<and> load_schema E \<lparr>code_path = cp, schema_path = jp, endpoints = eps, schema = s0\<rparr>
           = (\<lparr>code_path = cp, schema_path = jp, endpoints = eps, schema = dj\<rparr>, None)
    \<and> validate_endpoints
         (fst (load_schema E \<lparr>code_path = cp, schema_path = yp, endpoints = eps, schema = s0\<rparr>))
       = validate_endpoints
         (fst (load_schema E \<lparr>code_path = cp, schema_path = jp, endpoints = eps, schema = s0\<rparr>))
    \<and> main E cp yp = main E cp jp"
proof -
  have same: "validate_endpoints v = validate_endpoints w"
    if "schema v = dy" and "schema w = dj" and "endpoints v = endpoints w" for v w
  proof -
    from assms(7) show ?thesis
    proof
      assume "dy = dj"
      with that show ?thesis by (intro validate_endpoints_fields) simp_all
    next
      assume "\<exists>my mj P. dy = DMap my \<and> dj = DMap mj
           \<and> map_of my (DStr ''paths'') = Some P \<and> map_of mj (DStr ''paths'') = Some P"
      then obtain my mj P where d: "dy = DMap my" "dj = DMap mj"
        and p: "map_of my (DStr ''paths'') = Some P" "map_of mj (DStr ''paths'') = Some P"
        by blast
      have "validate_endpoints v = validate_endpoints (v\<lparr>schema := DMap my\<rparr>)"
        using that(1) d(1) by (intro validate_endpoints_fields) simp_all
      also have "\<dots> = validate_endpoints (v\<lparr>schema := DMap mj\<rparr>)"
        using p by (rule validate_endpoints_paths_only)
      also have "\<dots> = validate_endpoints w"
        using that(2,3) d(2) by (intro validate_endpoints_fields) simp_all
      finally show ?thesis .
    qed
  qed
  have ly: "load_schema E \<lparr>code_path = c, schema_path = yp, endpoints = es, schema = s\<rparr>
           = (\<lparr>code_path = c, schema_path = yp, endpoints = es, schema = dy\<rparr>, None)" for c es s
    using load_schema_yaml_ok [of E "\<lparr>code_path = c, schema_path = yp, endpoints = es, schema = s\<rparr>"
        ytext dy] assms(1,2,3)
    by simp
  have lj: "load_schema E \<lparr>code_path = c, schema_path = jp, endpoints = es, schema = s\<rparr>
           = (\<lparr>code_path = c, schema_path = jp, endpoints = es, schema = dj\<rparr>, None)" for c es s
    using load_schema_json_ok [of E "\<lparr>code_path = c, schema_path = jp, endpoints = es, schema = s\<rparr>"
        jtext dj] assms(4,5,6)
    by simp
  have v: "validate_endpoints
         (fst (load_schema E \<lparr>code_path = cp, schema_path = yp, endpoints = eps, schema = s0\<rparr>))
       = validate_endpoints
         (fst (load_schema E \<lparr>code_path = cp, schema_path = jp, endpoints = eps, schema = s0\<rparr>))"
    by (simp only: ly lj fst_conv) (rule same, simp_all)
  have m: "main E cp yp = main E cp jp"
  proof -
    let ?vy = "\<lparr>code_path = cp, schema_path = yp, endpoints = [], schema = dy\<rparr>"
    let ?vj = "\<lparr>code_path = cp, schema_path = jp, endpoints = [], schema = dj\<rparr>"
    let ?found = "fst (scan_walk E (os_walk E cp) [])"
    let ?r = "snd (scan_walk E (os_walk E cp) [])"
    have fy: "find_endpoints E ?vy = (?vy\<lparr>endpoints := ?found\<rparr>, ?r)"
      by (simp add: find_endpoints_fields)
    have fj: "find_endpoints E ?vj = (?vj\<lparr>endpoints := ?found\<rparr>, ?r)"
      by (simp add: find_endpoints_fields)
    have "validate_endpoints (?vy\<lparr>endpoints := ?found\<rparr>) = validate_endpoints (?vj\<lparr>endpoints := ?found\<rparr>)"
      by (rule same) simp_all
    then have "report (?vy\<lparr>endpoints := ?found\<rparr>) = report (?vj\<lparr>endpoints := ?found\<rparr>)"
      by (simp add: report_def)
    then show ?thesis
      by (simp add: main_def init_def ly lj fy fj split: option.splits)
  qed
  from ly lj v m show ?thesis by simp
qed

theorem C8_yaml_json_same_result_witness:
  "validate_endpoints
     (fst (load_schema example_env
        \<lparr>code_path = ''./example_code'', schema_path = ''./example_schema.yaml'',
         endpoints = [(''a.py'', ''/orders'')], schema = DNull\<rparr>))
   = validate_endpoints
     (fst (load_schema example_env
        \<lparr>code_path = ''./example_code'', schema_path = ''./example_schema.json'',
         endpoints = [(''a.py'', ''/orders'')], schema = DNull\<rparr>))
   \<and> main example_env ''./example_code'' ''./example_schema.yaml''
       = main example_env ''./example_code'' ''./example_schema.json''
   \<and> example_schema \<noteq> example_schema_json"
proof -
  have 1: "open_file example_env ''./example_schema.yaml'' = Inr (Inr ''yaml text of the example'')"
    by (simp add: example_env_def example_open_def)
  have 2: "endswith ''./example_schema.yaml'' ''.yaml'' \<or> endswith ''./example_schema.yaml'' ''.yml''"
    by (simp add: endswith_def)
  have 3: "yaml_safe_load example_env ''yaml text of the example'' = Inr example_schema"
    by (simp add: example_env_def example_yaml_def)
  have 4: "open_file example_env ''./example_schema.json'' = Inr (Inr ''json text of the example'')"
    by (simp add: example_env_def example_open_def)
  have 5: "endswith ''./example_schema.json'' ''.json''"
    by (simp add: endswith_def)
  have 6: "json_load example_env ''json text of the example'' = Inr example_schema_json"
    by (simp add: example_env_def example_json_def)
  have 7: "example_schema = example_schema_json \<or> (\<exists>my mj P. example_schema = DMap my
           \<and> example_schema_json = DMap mj
           \<and> map_of my (DStr ''paths'') = Some P \<and> map_of mj (DStr ''paths'') = Some P)"
    by (simp add: example_schema_def example_schema_json_def)
  have 8: "example_schema \<noteq> example_schema_json"
    by (simp add: example_schema_def example_schema_json_def)
  from C8_yaml_json_same_result [OF 1 2 3 4 5 6 7, of "''./example_code''" "[(''a.py'', ''/orders'')]" DNull] 8
  show ?thesis by blast
qed

text \<open>
  Claim C9. A schema that \<^verbatim>\<open>load_schema\<close> loaded with success and that is falsy makes
  \<^verbatim>\<open>validate_endpoints\<close> return \<^verbatim>\<open>Schema not loaded.\<close>, not
  \<^verbatim>\<open>No paths defined in schema\<close>. The empty mapping and null are such schemas, and both
  are reachable: a JSON file whose document is the empty mapping, a YAML file whose
  document is null.
\<close>

theorem C9_falsy_loaded_schema:
  "(snd (load_schema E v) = None \<and> \<not> truthy (schema (fst (load_schema E v)))
      \<longrightarrow> validate_endpoints (fst (load_schema E v)) = Inr [''Schema not loaded.''])
   \<and> validate_endpoints (v\<lparr>schema := DMap []\<rparr>) = Inr [''Schema not loaded.'']
   \<and> validate_endpoints (v\<lparr>schema := DNull\<rparr>) = Inr [''Schema not loaded.'']
   \<and> validate_endpoints (v\<lparr>schema := DMap []\<rparr>) \<noteq> Inr [''No paths defined in schema'']
   \<and> (open_file E (schema_path v) = Inr (Inr content) \<and> endswith (schema_path v) ''.json''
        \<and> json_load E content = Inr (DMap [])
      \<longrightarrow> load_schema E v = (v\<lparr>schema := DMap []\<rparr>, None))
   \<and> (open_file E (schema_path v) = Inr (Inr content)
        \<and> (endswith (schema_path v) ''.yaml'' \<or> endswith (schema_path v) ''.yml'')
        \<and> yaml_safe_load E content = Inr DNull
      \<longrightarrow> load_schema E v = (v\<lparr>schema := DNull\<rparr>, None))"
proof -
  have a: "validate_endpoints w = Inr [''Schema not loaded.'']" if "\<not> truthy (schema w)" for w
    using that by (simp add: validate_endpoints_def)
  have j: "load_schema E v = (v\<lparr>schema := DMap []\<rparr>, None)"
    if "open_file E (schema_path v) = Inr (Inr content)" and "endswith (schema_path v) ''.json''"
      and "json_load E content = Inr (DMap [])"
    using that json_not_yaml [of "schema_path v"]
    by (simp add: load_schema_def parse_handle_def)
  have y: "load_schema E v = (v\<lparr>schema := DNull\<rparr>, None)"
    if "open_file E (schema_path v) = Inr (Inr content)"
      and "endswith (schema_path v) ''.yaml'' \<or> endswith (schema_path v) ''.yml''"
      and "yaml_safe_load E content = Inr DNull"
    using that by (simp add: load_schema_def parse_handle_def)
  show ?thesis using a j y by simp
qed

theorem C9_falsy_loaded_schema_witness:
  "load_schema example_env (init ''./example_code'' ''./empty.json'')
     = ((init ''./example_code'' ''./empty.json'')\<lparr>schema := DMap []\<rparr>, None)
   \<and> validate_endpoints (fst (load_schema example_env (init ''./example_code'' ''./empty.json'')))
     = Inr [''Schema not loaded.'']"
proof -
  have o: "open_file example_env (schema_path (init ''./example_code'' ''./empty.json'')) = Inr (Inr ''{}'')"
    by (simp add: example_env_def example_open_def init_def)
  have e: "endswith (schema_path (init ''./example_code'' ''./empty.json'')) ''.json''"
    by (simp add: endswith_def init_def)
  have p: "json_load example_env ''{}'' = Inr (DMap [])"
    by (simp add: example_env_def example_json_def)
  from C9_falsy_loaded_schema [of example_env "init ''./example_code'' ''./empty.json''" "''{}''"] o e p
  show ?thesis by simp
qed

text \<open>
  Claim C10. \<^verbatim>\<open>find_endpoints\<close> appends to the list of the validator and never clears it.
  After \<open>n\<close> calls on a fresh validator the list is \<open>n\<close> copies, one after the other, of
  what one call finds, so every record occurs \<open>n\<close> times as often; on any validator the
  earlier records stay in front. With a schema that reaches the loop (truthy, and
  containing \<^verbatim>\<open>paths\<close>), \<^verbatim>\<open>validate_endpoints\<close> after \<open>n\<close> calls returns \<open>n\<close> copies of the
  errors it returns after one call; when it raises after one call, it raises after
  \<open>n\<close> calls for every positive \<open>n\<close>.
\<close>

theorem C10_find_endpoints_accumulates:
  "endpoints (((\<lambda>s. fst (find_endpoints E s)) ^^ n) (init cp sp))
     = concat (replicate n (endpoints (fst (find_endpoints E (init cp sp)))))
   \<and> (\<forall>r. count_list (endpoints (((\<lambda>s. fst (find_endpoints E s)) ^^ n) (init cp sp))) r
          = n * count_list (endpoints (fst (find_endpoints E (init cp sp)))) r)
   \<and> (\<forall>v. endpoints (((\<lambda>s. fst (find_endpoints E s)) ^^ n) v)
          = endpoints v
            @ concat (replicate n (endpoints (fst (find_endpoints E (v\<lparr>endpoints := []\<rparr>))))))
   \<and> (truthy d \<and> contains d ''paths'' = Inr True \<longrightarrow>
        validate_endpoints ((((\<lambda>s. fst (find_endpoints E s)) ^^ n) (init cp sp))\<lparr>schema := d\<rparr>)
          = (case validate_endpoints ((fst (find_endpoints E (init cp sp)))\<lparr>schema := d\<rparr>) of
               Inr errs \<Rightarrow> Inr (concat (replicate n errs))
             | Inl e \<Rightarrow> if n = 0 then Inr [] else Inl e))"
proof -
  let ?step = "\<lambda>s. fst (find_endpoints E s)"
  let ?found = "fst (scan_walk E (os_walk E cp) [])"
  have one: "endpoints (?step (init cp sp)) = ?found"
    by (simp add: find_endpoints_acc init_def)
  have many: "endpoints ((?step ^^ n) (init cp sp)) = concat (replicate n ?found)"
    by (simp add: find_endpoints_funpow init_def)
  have 1: "endpoints ((?step ^^ n) (init cp sp)) = concat (replicate n (endpoints (?step (init cp sp))))"
    by (simp only: one many)
  have 2: "\<forall>r. count_list (endpoints ((?step ^^ n) (init cp sp))) r
          = n * count_list (endpoints (?step (init cp sp))) r"
    by (simp only: 1 count_list_concat_replicate) simp
  have 3: "\<forall>v. endpoints ((?step ^^ n) v)
          = endpoints v @ concat (replicate n (endpoints (?step (v\<lparr>endpoints := []\<rparr>))))"
  proof
    fix v :: validator
    have "endpoints (?step (v\<lparr>endpoints := []\<rparr>)) = fst (scan_walk E (os_walk E (code_path v)) [])"
      by (simp add: find_endpoints_acc)
    moreover have "endpoints ((?step ^^ n) v) =
        endpoints v @ concat (replicate n (fst (scan_walk E (os_walk E (code_path v)) [])))"
      by (simp only: find_endpoints_funpow) simp
    ultimately show "endpoints ((?step ^^ n) v)
          = endpoints v @ concat (replicate n (endpoints (?step (v\<lparr>endpoints := []\<rparr>))))"
      by simp
  qed
  have 4: "validate_endpoints (((?step ^^ n) (init cp sp))\<lparr>schema := d\<rparr>)
          = (case validate_endpoints ((?step (init cp sp))\<lparr>schema := d\<rparr>) of
               Inr errs \<Rightarrow> Inr (concat (replicate n errs))
             | Inl e \<Rightarrow> if n = 0 then Inr [] else Inl e)"
    if t: "truthy d" and c: "contains d ''paths'' = Inr True"
  proof -
    have "validate_endpoints (((?step ^^ n) (init cp sp))\<lparr>schema := d\<rparr>)
            = validate_loop d (concat (replicate n ?found)) []"
      using many by (simp only: validate_endpoints_loop [OF t c])
    moreover have "validate_endpoints ((?step (init cp sp))\<lparr>schema := d\<rparr>)
            = validate_loop d ?found []"
      using one by (simp only: validate_endpoints_loop [OF t c])
    ultimately show ?thesis by (simp only: validate_loop_replicate)
  qed
  from 1 2 3 4 show ?thesis by blast
qed

theorem C10_find_endpoints_accumulates_witness:
  "endpoints (((\<lambda>s. fst (find_endpoints example_env s)) ^^ Suc (Suc 0))
       (init ''./example_code'' ''./example_schema.yaml''))
     = [(''./example_code/app.py'', ''/users''), (''./example_code/app.py'', ''/items/{item_id}''),
        (''./example_code/app.py'', ''/users''), (''./example_code/app.py'', ''/items/{item_id}'')]
   \<and> validate_endpoints
       ((((\<lambda>s. fst (find_endpoints example_env s)) ^^ Suc (Suc 0))
           (init ''./example_code'' ''./example_schema.yaml''))
        \<lparr>schema := DMap [(DStr ''paths'', DMap [(DStr ''/users'', DMap [(DStr ''get'', DMap [])])])]\<rparr>)
     = Inr [''Endpoint '/items/{item_id}' (defined in ./example_code/app.py) not found in schema.'',
            ''Endpoint '/items/{item_id}' (defined in ./example_code/app.py) not found in schema.'']"
proof -
  let ?d = "DMap [(DStr ''paths'', DMap [(DStr ''/users'', DMap [(DStr ''get'', DMap [])])])]"
  let ?v = "init ''./example_code'' ''./example_schema.yaml''"
  have one: "endpoints (fst (find_endpoints example_env ?v))
     = [(''./example_code/app.py'', ''/users''), (''./example_code/app.py'', ''/items/{item_id}'')]"
    by (simp add: find_endpoints_def init_def example_scan)
  have t: "truthy ?d \<and> contains ?d ''paths'' = Inr True" by simp
  have v1: "validate_endpoints ((fst (find_endpoints example_env ?v))\<lparr>schema := ?d\<rparr>)
     = Inr [''Endpoint '/items/{item_id}' (defined in ./example_code/app.py) not found in schema.'']"
    by (simp add: validate_endpoints_def one check_endpoint_def not_found_msg_def
        any_valid_method_def http_methods_def)
  from C10_find_endpoints_accumulates [where E = example_env and n = "Suc (Suc 0)"
      and cp = "''./example_code''" and sp = "''./example_schema.yaml''" and d = ?d] t
  have a: "endpoints (((\<lambda>s. fst (find_endpoints example_env s)) ^^ Suc (Suc 0)) ?v)
      = concat (replicate (Suc (Suc 0)) (endpoints (fst (find_endpoints example_env ?v))))"
    and b: "validate_endpoints ((((\<lambda>s. fst (find_endpoints example_env s)) ^^ Suc (Suc 0)) ?v)\<lparr>schema := ?d\<rparr>)
          = (case validate_endpoints ((fst (find_endpoints example_env ?v))\<lparr>schema := ?d\<rparr>) of
               Inr errs \<Rightarrow> Inr (concat (replicate (Suc (Suc 0)) errs))
             | Inl e \<Rightarrow> if Suc (Suc 0) = 0 then Inr [] else Inl e)"
    by blast+
  from a have a': "endpoints (((\<lambda>s. fst (find_endpoints example_env s)) ^^ Suc (Suc 0)) ?v)
     = [(''./example_code/app.py'', ''/users''), (''./example_code/app.py'', ''/items/{item_id}''),
        (''./example_code/app.py'', ''/users''), (''./example_code/app.py'', ''/items/{item_id}'')]"
    by (simp only: one) simp
  from b have b': "validate_endpoints ((((\<lambda>s. fst (find_endpoints example_env s)) ^^ Suc (Suc 0)) ?v)\<lparr>schema := ?d\<rparr>)
     = Inr [''Endpoint '/items/{item_id}' (defined in ./example_code/app.py) not found in schema.'',
            ''Endpoint '/items/{item_id}' (defined in ./example_code/app.py) not found in schema.'']"
    by (simp only: v1) simp
  from a' b' show ?thesis by (rule conjI)
qed

end
